theory Spec2Isabelle
  imports Main "HOL-Library.Word" "HOL-Library.Monad_Syntax"
begin

unbundle bit_operations_syntax

section \<open>Data model (stl.go, lines 17-51)\<close>

text \<open>
  A Go \<^verbatim>\<open>byte\<close> is an 8-bit value; Isabelle's \<^typ>\<open>char\<close> is exactly that, and lets
  the keywords of the grammar be written as string literals. A \<^verbatim>\<open>float32\<close> is kept as
  its IEEE-754 bit pattern (what \<^verbatim>\<open>binary.Read\<close> stores into it); the zero value of the
  type is the pattern 0.
\<close>

type_synonym byte = char
type_synonym float32 = "32 word"

definition ident :: string where
  "ident = ''ABCDEFGHIJKLMNOPQRSTUVWXYZabcdefghijklmnopqrstuvwxyz_0123456789.''"

definition spaces :: string where
  "spaces = [CHR '' '', CHR 0x0A, CHR 0x09, CHR 0x0D]"

definition floatDigits :: string where
  "floatDigits = ''0123456789.''"

record Vertex =
  X :: float32
  Y :: float32
  Z :: float32

record Facet =
  Vertices :: "Vertex list"
  Valid :: bool
  Normal :: Vertex

text \<open>The zero values of the two struct types (\<^verbatim>\<open>var normal Vertex\<close>, \<^verbatim>\<open>var vs [3]Vertex\<close>).\<close>

definition zeroVertex :: Vertex where
  "zeroVertex = \<lparr>X = 0, Y = 0, Z = 0\<rparr>"

definition zeroVertices :: "Vertex list" where
  "zeroVertices = replicate 3 zeroVertex"

text \<open>
  The text of a lexer error is \<^verbatim>\<open>fmt.Sprintf\<close> of one of three formats; the value below
  keeps the format and its arguments (keyword, offset \<^verbatim>\<open>%v\<close>, bytes \<^verbatim>\<open>%q\<close>). None of the
  three formats renders to the empty string.
\<close>

datatype lexmsg =
    ExpectedKeyword string int "byte list"
  | ExpectedNumber int "byte list"
  | UnableToParseFloat "byte list"

text \<open>The values of Go's \<^verbatim>\<open>error\<close> interface that the package returns.\<close>

datatype error =
    ErrTooSmall
  | ErrIncompleteHeader
  | ErrNoData
  | io_EOF
  | io_ErrUnexpectedEOF
  | LexerError lexmsg

datatype stateFn = AsciiFileHeader | AsciiFacet | AsciiVertex

text \<open>
  The lexer. A Go slice can be resliced up to its capacity, so \<^verbatim>\<open>input\<close> is kept as
  the bytes below \<^verbatim>\<open>len(input)\<close> together with \<open>spare\<close>, the bytes of the backing
  array between \<^verbatim>\<open>len(input)\<close> and \<^verbatim>\<open>cap(input)\<close>. The channel \<^verbatim>\<open>items\<close> is the
  list of facets waiting in it; \<open>error = None\<close> is the empty string; a \<open>state\<close> or a
  \<open>pendingFacet\<close> of \<open>None\<close> is \<^verbatim>\<open>nil\<close>.
\<close>

record lexer =
  name :: string
  input :: "byte list"
  spare :: "byte list"
  state :: "stateFn option"
  start :: int
  pos :: int
  items :: "Facet list"
  error :: "lexmsg option"
  meshName :: "byte list"
  pendingFacet :: "Facet option"

text \<open>A rune as \<^verbatim>\<open>next\<close> returns it: \<open>eof\<close> is -1, \<open>Rune b\<close> the code point of byte b.\<close>

datatype rune = eof | Rune byte

section \<open>Lexer primitives (stl.go, lines 57-152)\<close>

text \<open>
  A call that does not return normally (a run-time panic: index or slice bounds out of
  range, nil dereference; or a send that blocks for ever) has the value \<open>None\<close>.
\<close>

definition lex :: "string \<Rightarrow> byte list \<Rightarrow> byte list \<Rightarrow> stateFn \<Rightarrow> lexer" where
  "lex nm inp spr initialState =
     \<lparr>name = nm, input = inp, spare = spr, state = Some initialState, start = 0, pos = 0,
      items = [], error = None, meshName = [], pendingFacet = None\<rparr>"

definition cap :: "lexer \<Rightarrow> int" where
  "cap l = int (length (input l) + length (spare l))"

definition next_rune :: "lexer \<Rightarrow> (rune \<times> lexer) option" where
  "next_rune l =
     (if pos l \<ge> int (length (input l)) then Some (eof, l)
      else if pos l < 0 then None
      else Some (Rune (input l ! nat (pos l)), l\<lparr>pos := pos l + 1\<rparr>))"

definition ignore :: "lexer \<Rightarrow> lexer" where
  "ignore l = l\<lparr>start := pos l\<rparr>"

definition backup :: "lexer \<Rightarrow> lexer" where
  "backup l = l\<lparr>pos := pos l - 1\<rparr>"

definition peek :: "lexer \<Rightarrow> (rune \<times> lexer) option" where
  "peek l = do { (r, l1) \<leftarrow> next_rune l; Some (r, backup l1) }"

text \<open>
  \<^verbatim>\<open>strings.IndexRune(valid, r) >= 0\<close>, for the ASCII-only strings it is called with
  (\<open>spaces\<close>, \<open>ident\<close>, \<open>floatDigits\<close>, \<open>+-\<close>, \<open>eE\<close>): -1 is no valid rune, and a byte
  from 0x80 on is a code point whose UTF-8 form has two bytes, which an ASCII string does
  not contain; such a byte is not a member of the string either.
\<close>

definition IndexRune_found :: "string \<Rightarrow> rune \<Rightarrow> bool" where
  "IndexRune_found valid r =
     (case r of eof \<Rightarrow> False | Rune b \<Rightarrow> b \<in> set valid)"

definition accept :: "string \<Rightarrow> lexer \<Rightarrow> (bool \<times> lexer) option" where
  "accept valid l =
     do { (r, l1) \<leftarrow> next_rune l;
          if IndexRune_found valid r then Some (True, l1) else Some (False, backup l1) }"

function acceptRun_loop :: "string \<Rightarrow> bool \<Rightarrow> lexer \<Rightarrow> (bool \<times> lexer) option" where
  "acceptRun_loop valid result l =
     (case next_rune l of
        None \<Rightarrow> None
      | Some (r, l1) \<Rightarrow>
          if IndexRune_found valid r then acceptRun_loop valid True l1
          else Some (result, backup l1))"
  by pat_completeness auto
termination
  by (relation "measure (\<lambda>(valid, result, l). nat (int (length (input l)) - pos l))")
     (auto simp: next_rune_def IndexRune_found_def split: if_splits)

declare acceptRun_loop.simps [simp del]

definition acceptRun :: "string \<Rightarrow> lexer \<Rightarrow> (bool \<times> lexer) option" where
  "acceptRun valid l = acceptRun_loop valid False l"

text \<open>
  \<^verbatim>\<open>l.input[lo:hi]\<close>: in range when \<open>0 \<le> lo \<le> hi \<le> cap\<close>; the bytes from
  \<^verbatim>\<open>len(input)\<close> on are those of the backing array.
\<close>

definition slice :: "lexer \<Rightarrow> int \<Rightarrow> int \<Rightarrow> byte list option" where
  "slice l lo hi =
     (if 0 \<le> lo \<and> lo \<le> hi \<and> hi \<le> cap l
      then Some (take (nat (hi - lo)) (drop (nat lo) (input l @ spare l)))
      else None)"

definition acceptKeyword :: "string \<Rightarrow> lexer \<Rightarrow> (bool \<times> lexer) option" where
  "acceptKeyword keyword l =
     do { bs \<leftarrow> slice l (pos l) (pos l + int (length keyword));
          if bs = keyword then Some (True, l\<lparr>pos := pos l + int (length keyword)\<rparr>)
          else Some (False, l) }"

text \<open>The channel has room for two facets; a send to a full channel never returns.\<close>

definition emit :: "Facet \<Rightarrow> lexer \<Rightarrow> lexer option" where
  "emit f l =
     (if length (items l) < 2 then Some (l\<lparr>items := items l @ [f], start := pos l\<rparr>)
      else None)"

definition errorf :: "lexmsg \<Rightarrow> lexer \<Rightarrow> stateFn option \<times> lexer" where
  "errorf m l = (None, l\<lparr>error := Some m\<rparr>)"

definition acceptNumber :: "lexer \<Rightarrow> (bool \<times> lexer) option" where
  "acceptNumber l =
     do { (_, l1) \<leftarrow> accept ''+-'' l;
          (b, l2) \<leftarrow> acceptRun floatDigits l1;
          if \<not> b then Some (False, l2)
          else do {
            (e, l3) \<leftarrow> accept ''eE'' l2;
            if e then do {
              (_, l4) \<leftarrow> accept ''+-'' l3;
              (b', l5) \<leftarrow> acceptRun floatDigits l4;
              if \<not> b' then Some (False, l5) else Some (True, l5) }
            else Some (True, l3) } }"

section \<open>The states of the ASCII lexer (stl.go, lines 154-266)\<close>

text \<open>
  \<^verbatim>\<open>strconv.ParseFloat(s, 32)\<close> followed by the conversion to \<^verbatim>\<open>float32\<close> belongs to Go's
  library, not to this package: it is the parameter \<open>pf\<close> of the model, \<open>None\<close> when
  \<^verbatim>\<open>err != nil\<close>.
\<close>

type_synonym parseFloat = "byte list \<Rightarrow> float32 option"

text \<open>
  \<^verbatim>\<open>return l.errorf("Expected keyword 'kw' at %v. Saw %q instead", l.pos, l.input[l.pos:l.pos+n])\<close>
  and its sibling for numbers: the arguments are evaluated first, so the slice
  expression can panic before \<^verbatim>\<open>errorf\<close> runs.
\<close>

definition expectedKeyword :: "string \<Rightarrow> int \<Rightarrow> lexer \<Rightarrow> (stateFn option \<times> lexer) option" where
  "expectedKeyword kw n l =
     do { saw \<leftarrow> slice l (pos l) (pos l + n);
          Some (errorf (ExpectedKeyword kw (pos l) saw) l) }"

definition expectedNumber :: "lexer \<Rightarrow> (stateFn option \<times> lexer) option" where
  "expectedNumber l =
     do { saw \<leftarrow> slice l (pos l) (pos l + 1);
          Some (errorf (ExpectedNumber (pos l) saw) l) }"

text \<open>
  The loops of \<^verbatim>\<open>asciiVertex\<close>. A loop that leaves the function through
  \<^verbatim>\<open>return l.errorf(...)\<close> yields \<open>Inl\<close> of what the function returns; one that runs to
  its end yields \<open>Inr\<close> of the array it filled and the lexer.
\<close>

function xyz_loop ::
  "parseFloat \<Rightarrow> nat \<Rightarrow> float32 list \<Rightarrow> lexer
     \<Rightarrow> ((stateFn option \<times> lexer) + (float32 list \<times> lexer)) option" where
  "xyz_loop pf j xyz l =
     (if j < 3 then
        do { (_, l1) \<leftarrow> acceptRun spaces l;
             let c = pos l1 in
             do { (ok, l2) \<leftarrow> acceptNumber l1;
                  if \<not> ok then map_option Inl (expectedNumber l2)
                  else do {
                    tok \<leftarrow> slice l2 c (pos l2);
                    case pf tok of
                      None \<Rightarrow> Some (Inl (errorf (UnableToParseFloat tok) l2))
                    | Some t \<Rightarrow> xyz_loop pf (j + 1) (xyz[j := t]) l2 } } }
      else Some (Inr (xyz, l)))"
  by pat_completeness auto
termination
  by (relation "measure (\<lambda>(pf, j, xyz, l). 3 - j)") auto

declare xyz_loop.simps [simp del]

function vertex_loop ::
  "parseFloat \<Rightarrow> nat \<Rightarrow> Vertex list \<Rightarrow> lexer
     \<Rightarrow> ((stateFn option \<times> lexer) + (Vertex list \<times> lexer)) option" where
  "vertex_loop pf i vs l =
     (if i < 3 then
        do { (_, l1) \<leftarrow> acceptRun spaces l;
             (kw, l2) \<leftarrow> acceptKeyword ''vertex'' l1;
             if \<not> kw then map_option Inl (expectedKeyword ''vertex'' 6 l2)
             else do {
               r \<leftarrow> xyz_loop pf 0 (replicate 3 0) l2;
               case r of
                 Inl ret \<Rightarrow> Some (Inl ret)
               | Inr (xyz, l3) \<Rightarrow>
                   vertex_loop pf (i + 1)
                     (vs[i := \<lparr>X = xyz ! 0, Y = xyz ! 1, Z = xyz ! 2\<rparr>]) l3 } }
      else Some (Inr (vs, l)))"
  by pat_completeness auto
termination
  by (relation "measure (\<lambda>(pf, i, vs, l). 3 - i)") auto

declare vertex_loop.simps [simp del]

definition asciiVertex :: "parseFloat \<Rightarrow> lexer \<Rightarrow> (stateFn option \<times> lexer) option" where
  "asciiVertex pf l =
     do { r \<leftarrow> vertex_loop pf 0 zeroVertices l;
          case r of
            Inl ret \<Rightarrow> Some ret
          | Inr (vs, l1) \<Rightarrow>
              do { (_, l2) \<leftarrow> acceptRun spaces l1;
                   (k1, l3) \<leftarrow> acceptKeyword ''endloop'' l2;
                   if \<not> k1 then expectedKeyword ''endloop'' 7 l3
                   else do {
                     (_, l4) \<leftarrow> acceptRun spaces l3;
                     (k2, l5) \<leftarrow> acceptKeyword ''endfacet'' l4;
                     if \<not> k2 then expectedKeyword ''endfacet'' 8 l5
                     else do {
                       (_, l6) \<leftarrow> acceptRun spaces l5;
                       p \<leftarrow> pendingFacet l6;
                       let f = p\<lparr>Vertices := vs, Valid := True\<rparr> in
                       do { l7 \<leftarrow> emit f (l6\<lparr>pendingFacet := Some f\<rparr>);
                            Some (Some AsciiFacet, l7\<lparr>pendingFacet := None\<rparr>) } } } } }"

text \<open>
  One component of the normal in \<^verbatim>\<open>asciiFacet\<close> (the source repeats these lines three
  times, for \<^verbatim>\<open>ni\<close>, \<^verbatim>\<open>nj\<close> and \<^verbatim>\<open>nk\<close>).
\<close>

definition normalComponent ::
  "parseFloat \<Rightarrow> lexer \<Rightarrow> ((stateFn option \<times> lexer) + (float32 \<times> lexer)) option" where
  "normalComponent pf l =
     do { (_, l1) \<leftarrow> acceptRun spaces l;
          (ok, l2) \<leftarrow> acceptNumber (ignore l1);
          if \<not> ok then map_option Inl (expectedNumber l2)
          else do {
            tok \<leftarrow> slice l2 (start l2) (pos l2);
            case pf tok of
              None \<Rightarrow> Some (Inl (errorf (UnableToParseFloat tok) l2))
            | Some t \<Rightarrow> Some (Inr (t, l2)) } }"

definition asciiFacet :: "parseFloat \<Rightarrow> lexer \<Rightarrow> (stateFn option \<times> lexer) option" where
  "asciiFacet pf l =
     do { (_, l1) \<leftarrow> acceptRun spaces l;
          (k1, l2) \<leftarrow> acceptKeyword ''facet'' l1;
          if \<not> k1 then
            do { (k0, l2') \<leftarrow> acceptKeyword ''endsolid'' l2;
                 if k0 then Some (None, l2') else expectedKeyword ''facet'' 5 l2' }
          else do {
            (_, l3) \<leftarrow> acceptRun spaces l2;
            (k2, l4) \<leftarrow> acceptKeyword ''normal'' l3;
            if \<not> k2 then expectedKeyword ''normal'' 6 l4
            else do {
              ri \<leftarrow> normalComponent pf l4;
              case ri of Inl ret \<Rightarrow> Some ret | Inr (ni, l5) \<Rightarrow>
              do {
              rj \<leftarrow> normalComponent pf l5;
              case rj of Inl ret \<Rightarrow> Some ret | Inr (nj, l6) \<Rightarrow>
              do {
              rk \<leftarrow> normalComponent pf l6;
              case rk of Inl ret \<Rightarrow> Some ret | Inr (nk, l7) \<Rightarrow>
              do {
                (_, l8) \<leftarrow> acceptRun spaces l7;
                (k3, l9) \<leftarrow> acceptKeyword ''outer'' l8;
                if \<not> k3 then expectedKeyword ''outer'' 5 l9
                else do {
                  (_, l10) \<leftarrow> acceptRun spaces l9;
                  (k4, l11) \<leftarrow> acceptKeyword ''loop'' l10;
                  if \<not> k4 then expectedKeyword ''loop'' 4 l11
                  else Some (Some AsciiVertex,
                    l11\<lparr>pendingFacet :=
                      Some \<lparr>Vertices = zeroVertices, Valid = False,
                            Normal = \<lparr>X = ni, Y = nj, Z = nk\<rparr>\<rparr>\<rparr>) } } } } } } }"

definition asciiFileHeader :: "lexer \<Rightarrow> (stateFn option \<times> lexer) option" where
  "asciiFileHeader l =
     do { (_, l1) \<leftarrow> acceptRun spaces l;
          (_, l2) \<leftarrow> acceptRun ident l1;
          c \<leftarrow> slice l2 (start l2) (pos l2);
          if c = ''facet'' then Some (Some AsciiFacet, ignore l2)
          else Some (Some AsciiFacet, l2\<lparr>meshName := c\<rparr>) }"

text \<open>\<^verbatim>\<open>l.state(l)\<close>: the call of the function value held in \<^verbatim>\<open>l.state\<close>.\<close>

fun call_state :: "parseFloat \<Rightarrow> stateFn \<Rightarrow> lexer \<Rightarrow> (stateFn option \<times> lexer) option" where
  "call_state pf AsciiFileHeader l = asciiFileHeader l"
| "call_state pf AsciiFacet l = asciiFacet pf l"
| "call_state pf AsciiVertex l = asciiVertex pf l"

section \<open>Progress of the lexer\<close>

text \<open>
  What each primitive and each state does to the cursor, the buffer and the channel.
  \<open>adv d l l'\<close>: the buffer and the channel are unchanged and the cursor has moved
  forward by at least \<open>d\<close> (backwards by at most \<open>- d\<close>). These facts give the
  termination of \<^verbatim>\<open>nextFacet\<close> and of the loop of \<^verbatim>\<open>parseASCII\<close> below.
\<close>

definition adv :: "int \<Rightarrow> lexer \<Rightarrow> lexer \<Rightarrow> bool" where
  "adv d l l' \<longleftrightarrow>
     input l' = input l \<and> spare l' = spare l \<and> items l' = items l \<and> pos l + d \<le> pos l'"

lemma adv_trans: "adv d l l1 \<Longrightarrow> adv e l1 l2 \<Longrightarrow> adv (d + e) l l2"
  by (simp add: adv_def)

lemma adv_weaken: "adv d l l' \<Longrightarrow> e \<le> d \<Longrightarrow> adv e l l'"
  by (simp add: adv_def)

lemma next_rune_frame:
  "next_rune l = Some (r, l1) \<Longrightarrow> adv 0 l l1 \<and> (IndexRune_found valid r \<longrightarrow> pos l1 = pos l + 1)"
  by (auto simp: next_rune_def adv_def IndexRune_found_def split: if_splits)

lemma acceptRun_loop_frame:
  "acceptRun_loop valid res l = Some (b, l') \<Longrightarrow>
     adv (if b \<and> \<not> res then 0 else - 1) l l'"
proof (induction valid res l rule: acceptRun_loop.induct)
  case (1 valid result l)
  from "1.prems" obtain r l1 where nr: "next_rune l = Some (r, l1)"
    by (subst (asm) acceptRun_loop.simps) (auto split: option.splits)
  note fr = next_rune_frame [OF nr, of valid]
  show ?case
  proof (cases "IndexRune_found valid r")
    case True
    with "1.prems" nr have rec: "acceptRun_loop valid True l1 = Some (b, l')"
      by (subst (asm) acceptRun_loop.simps) simp
    from "1.IH" [OF nr refl True rec] fr True show ?thesis by (simp add: adv_def)
  next
    case False
    with "1.prems" nr have "b = result" "l' = backup l1"
      by (subst (asm) acceptRun_loop.simps; simp)+
    with fr show ?thesis by (simp add: backup_def adv_def)
  qed
qed

lemma acceptRun_frame:
  "acceptRun valid l = Some (b, l') \<Longrightarrow> adv (if b then 0 else - 1) l l'"
  using acceptRun_loop_frame [of valid False l b l'] by (simp add: acceptRun_def)

lemma accept_frame:
  "accept valid l = Some (b, l') \<Longrightarrow> adv (if b then 1 else - 1) l l'"
  unfolding accept_def
  by (clarsimp simp: bind_eq_Some_conv backup_def adv_def next_rune_def IndexRune_found_def
      split: if_splits)

lemma acceptKeyword_frame:
  "acceptKeyword kw l = Some (b, l') \<Longrightarrow>
     (if b then adv (int (length kw)) l l' \<and> pos l' \<le> cap l' else l' = l)"
  unfolding acceptKeyword_def
  by (clarsimp simp: bind_eq_Some_conv slice_def cap_def adv_def split: if_splits)

lemma acceptNumber_frame:
  assumes "acceptNumber l = Some (True, l')"
  shows "adv (- 2) l l'"
proof -
  from assms obtain a l1 where s1: "accept ''+-'' l = Some (a, l1)"
    unfolding acceptNumber_def by (cases "accept ''+-'' l") auto
  from assms s1 obtain l2 where s2: "acceptRun floatDigits l1 = Some (True, l2)"
    unfolding acceptNumber_def
    by (cases "acceptRun floatDigits l1") (auto split: if_splits)
  from assms s1 s2 obtain e l3 where s3: "accept ''eE'' l2 = Some (e, l3)"
    unfolding acceptNumber_def by (cases "accept ''eE'' l2") auto
  have a12: "adv (- 1) l l2"
    using accept_frame [OF s1] acceptRun_frame [OF s2]
    by (simp add: adv_def split: if_splits)
  show ?thesis
  proof (cases e)
    case False
    with assms s1 s2 s3 have "l' = l3" unfolding acceptNumber_def by simp
    with a12 accept_frame [OF s3] False show ?thesis by (simp add: adv_def)
  next
    case True
    with assms s1 s2 s3 obtain a' l4 where s5: "accept ''+-'' l3 = Some (a', l4)"
      unfolding acceptNumber_def by (cases "accept ''+-'' l3") auto
    with assms s1 s2 s3 True have s6: "acceptRun floatDigits l4 = Some (True, l')"
      unfolding acceptNumber_def
      by (cases "acceptRun floatDigits l4") (auto split: if_splits)
    from a12 accept_frame [OF s3] True accept_frame [OF s5] acceptRun_frame [OF s6]
    show ?thesis by (simp add: adv_def split: if_splits)
  qed
qed

lemma expectedNumber_frame:
  "expectedNumber l = Some (st, l') \<Longrightarrow> st = None \<and> error l' \<noteq> None \<and> items l' = items l"
  by (auto simp: expectedNumber_def errorf_def split: Option.bind_splits)

lemma expectedKeyword_frame:
  "expectedKeyword kw n l = Some (st, l') \<Longrightarrow> st = None \<and> error l' \<noteq> None \<and> items l' = items l"
  by (auto simp: expectedKeyword_def errorf_def split: Option.bind_splits)


lemma bind_SomeE:
  "Option.bind m f = Some y \<Longrightarrow> (\<And>v. m = Some v \<Longrightarrow> f v = Some y \<Longrightarrow> P) \<Longrightarrow> P"
  by (cases m) auto

lemma acceptRun_adv: "acceptRun valid l = Some (b, l') \<Longrightarrow> adv (- 1) l l'"
  by (drule acceptRun_frame) (simp add: adv_def split: if_splits)

lemma acceptKeyword_True:
  "acceptKeyword kw l = Some (True, l') \<Longrightarrow> adv (int (length kw)) l l' \<and> pos l' \<le> cap l'"
  by (drule acceptKeyword_frame) simp

lemma acceptKeyword_False: "acceptKeyword kw l = Some (False, l') \<Longrightarrow> l' = l"
  by (drule acceptKeyword_frame) simp

lemma expectedKeyword_not_Some [simp]: "expectedKeyword kw n l \<noteq> Some (Some st, l')"
  by (auto dest: expectedKeyword_frame)

lemma expectedNumber_not_Some [simp]: "expectedNumber l \<noteq> Some (Some st, l')"
  by (auto dest: expectedNumber_frame)

lemma normalComponent_frame:
  "normalComponent pf l = Some (Inr (t, l')) \<Longrightarrow> adv (- 3) l l'"
  unfolding normalComponent_def
  apply ((erule bind_SomeE, clarsimp simp: errorf_def split: if_splits option.splits)+)
  apply (drule acceptRun_adv, drule acceptNumber_frame)
  apply (simp add: adv_def ignore_def)
  done

lemma normalComponent_not_Inl_Some [simp]:
  "normalComponent pf l \<noteq> Some (Inl (Some st, l'))"
proof
  show "normalComponent pf l = Some (Inl (Some st, l')) \<Longrightarrow> False"
    unfolding normalComponent_def
    by ((erule bind_SomeE, clarsimp simp: errorf_def split: if_splits option.splits)+)
qed

lemma asciiFacet_frame:
  "asciiFacet pf l = Some (Some st, l') \<Longrightarrow>
     st = AsciiVertex \<and> adv 7 l l' \<and> pos l' \<le> cap l \<and> pendingFacet l' \<noteq> None"
  unfolding asciiFacet_def
  apply ((erule bind_SomeE, clarsimp split: if_splits sum.splits)+)
  apply (drule acceptRun_adv acceptKeyword_True normalComponent_frame)+
  apply (clarsimp simp: adv_def cap_def)
  done


lemma accept_adv: "accept valid l = Some (b, l') \<Longrightarrow> adv (- 1) l l'"
  by (drule accept_frame) (simp add: adv_def split: if_splits)

lemma acceptKeyword_adv: "acceptKeyword kw l = Some (b, l') \<Longrightarrow> adv 0 l l'"
  by (drule acceptKeyword_frame) (simp add: adv_def split: if_splits)

lemma acceptNumber_adv: "acceptNumber l = Some (b, l') \<Longrightarrow> adv (- 5) l l'"
  unfolding acceptNumber_def
  by (auto elim!: bind_SomeE split: if_splits dest!: accept_adv acceptRun_adv simp: adv_def)

lemma xyz_loop_frame:
  "xyz_loop pf j xyz l = Some r \<Longrightarrow>
     (case r of
        Inl (st, l') \<Rightarrow> st = None \<and> items l' = items l
      | Inr (xyz', l') \<Rightarrow> adv (- 3 * int (3 - j)) l l' \<and> length xyz' = length xyz)"
proof (induction pf j xyz l arbitrary: r rule: xyz_loop.induct)
  case (1 pf j xyz l)
  show ?case
  proof (cases "j < 3")
    case False
    with "1.prems" show ?thesis
      by (subst (asm) xyz_loop.simps) (auto simp: adv_def)
  next
    case True
    note run = "1.prems" [unfolded xyz_loop.simps [of pf j xyz l]]
    from run True obtain b l1 where s1: "acceptRun spaces l = Some (b, l1)"
      by (auto elim!: bind_SomeE)
    from run True s1 obtain ok l2 where s2: "acceptNumber l1 = Some (ok, l2)"
      by (auto elim!: bind_SomeE)
    note a1 = acceptRun_adv [OF s1]
    show ?thesis
    proof (cases ok)
      case False
      with run True s1 s2 obtain ret where "expectedNumber l2 = Some ret" "r = Inl ret"
        by auto
      with expectedNumber_frame [of l2 "fst ret" "snd ret"] a1 acceptNumber_adv [OF s2]
      show ?thesis by (cases ret) (auto simp: adv_def)
    next
      case ok: True
      with run True s1 s2 obtain tok where s3: "slice l2 (pos l1) (pos l2) = Some tok"
        by (auto elim!: bind_SomeE)
      from s2 ok have a2: "adv (- 2) l1 l2" by (simp add: acceptNumber_frame)
      show ?thesis
      proof (cases "pf tok")
        case None
        with run True s1 s2 s3 ok have "r = Inl (errorf (UnableToParseFloat tok) l2)"
          by auto
        with a1 a2 show ?thesis by (auto simp: errorf_def adv_def)
      next
        case (Some t)
        with run True s1 s2 s3 ok
        have rec: "xyz_loop pf (j + 1) (xyz[j := t]) l2 = Some r"
          by auto
        from "1.IH" [OF True s1 refl refl s2 refl _ s3 Some rec] ok a1 a2 True
        show ?thesis by (auto simp: adv_def split: sum.splits)
      qed
    qed
  qed
qed

lemma vertex_loop_frame:
  "vertex_loop pf i vs l = Some r \<Longrightarrow>
     (case r of
        Inl (st, l') \<Rightarrow> st = None \<and> items l' = items l
      | Inr (vs', l') \<Rightarrow> adv (- 4 * int (3 - i)) l l' \<and> length vs' = length vs)"
proof (induction pf i vs l arbitrary: r rule: vertex_loop.induct)
  case (1 pf i vs l)
  show ?case
  proof (cases "i < 3")
    case False
    with "1.prems" show ?thesis
      by (subst (asm) vertex_loop.simps) (auto simp: adv_def)
  next
    case True
    note run = "1.prems" [unfolded vertex_loop.simps [of pf i vs l]]
    from run True obtain b l1 where s1: "acceptRun spaces l = Some (b, l1)"
      by (auto elim!: bind_SomeE)
    from run True s1 obtain kw l2 where s2: "acceptKeyword ''vertex'' l1 = Some (kw, l2)"
      by (auto elim!: bind_SomeE)
    note a1 = acceptRun_adv [OF s1]
    show ?thesis
    proof (cases kw)
      case False
      with run True s1 s2 obtain ret where "expectedKeyword ''vertex'' 6 l2 = Some ret" "r = Inl ret"
        by auto
      with expectedKeyword_frame [of "''vertex''" 6 l2 "fst ret" "snd ret"] a1
        acceptKeyword_adv [OF s2]
      show ?thesis by (cases ret) (auto simp: adv_def)
    next
      case kw: True
      with run True s1 s2 obtain rx where s3: "xyz_loop pf 0 (replicate 3 0) l2 = Some rx"
        by (auto elim!: bind_SomeE)
      from s2 kw have a2: "adv 6 l1 l2 \<and> pos l2 \<le> cap l2"
        using acceptKeyword_True [of "''vertex''" l1 l2] by simp
      note a3 = xyz_loop_frame [OF s3]
      show ?thesis
      proof (cases rx)
        case (Inl ret)
        with run True s1 s2 s3 kw have "r = Inl ret" by auto
        with a1 a2 a3 Inl show ?thesis by (cases ret) (auto simp: adv_def)
      next
        case (Inr p)
        obtain xyz l3 where p: "p = (xyz, l3)" by (cases p)
        with Inr run True s1 s2 s3 kw
        have rec: "vertex_loop pf (i + 1)
            (vs[i := \<lparr>X = xyz ! 0, Y = xyz ! 1, Z = xyz ! 2\<rparr>]) l3 = Some r"
          by auto
        from "1.IH" [OF True s1 refl s2 refl _ s3 Inr p [symmetric] rec] kw a1 a2 a3 True Inr p
        show ?thesis by (auto simp: adv_def split: sum.splits)
      qed
    qed
  qed
qed


lemma normalComponent_items:
  "normalComponent pf l = Some r \<Longrightarrow>
     (case r of Inl (st, l') \<Rightarrow> items l' = items l | Inr (t, l') \<Rightarrow> items l' = items l)"
  unfolding normalComponent_def
  by (auto elim!: bind_SomeE split: if_splits option.splits
      dest!: acceptRun_adv acceptNumber_adv expectedNumber_frame
      simp: adv_def errorf_def ignore_def)

lemma asciiFacet_items: "asciiFacet pf l = Some (st, l') \<Longrightarrow> items l' = items l"
  unfolding asciiFacet_def
  by (auto elim!: bind_SomeE split: if_splits sum.splits
      dest!: acceptRun_adv acceptKeyword_adv expectedKeyword_frame normalComponent_items
      simp: adv_def)

lemma asciiFileHeader_frame:
  "asciiFileHeader l = Some (st, l') \<Longrightarrow> st = Some AsciiFacet \<and> adv (- 2) l l'"
  unfolding asciiFileHeader_def
  by (auto elim!: bind_SomeE split: if_splits dest!: acceptRun_adv simp: adv_def ignore_def)

lemma asciiVertex_frame:
  assumes "asciiVertex pf l = Some (st, l')"
  shows "case st of
           None \<Rightarrow> items l' = items l
         | Some s \<Rightarrow> s = AsciiFacet \<and> input l' = input l \<and> spare l' = spare l
             \<and> pos l \<le> pos l'
             \<and> (\<exists>f. items l' = items l @ [f] \<and> Valid f \<and> length (Vertices f) = 3)"
proof -
  from assms obtain r where s1: "vertex_loop pf 0 zeroVertices l = Some r"
    unfolding asciiVertex_def by (auto elim!: bind_SomeE)
  note a1 = vertex_loop_frame [OF s1]
  show ?thesis
  proof (cases r)
    case (Inl ret)
    with assms s1 have "ret = (st, l')" unfolding asciiVertex_def by simp
    with a1 Inl show ?thesis by auto
  next
    case (Inr p)
    obtain vs l1 where p: "p = (vs, l1)" by (cases p)
    from a1 Inr p have a1': "adv (- 12) l l1" and len: "length vs = 3"
      by (simp_all add: zeroVertices_def)
    from assms s1 Inr p
    have rest: "do { (_, l2) \<leftarrow> acceptRun spaces l1;
                   (k1, l3) \<leftarrow> acceptKeyword ''endloop'' l2;
                   if \<not> k1 then expectedKeyword ''endloop'' 7 l3
                   else do {
                     (_, l4) \<leftarrow> acceptRun spaces l3;
                     (k2, l5) \<leftarrow> acceptKeyword ''endfacet'' l4;
                     if \<not> k2 then expectedKeyword ''endfacet'' 8 l5
                     else do {
                       (_, l6) \<leftarrow> acceptRun spaces l5;
                       p \<leftarrow> pendingFacet l6;
                       let f = p\<lparr>Vertices := vs, Valid := True\<rparr> in
                       do { l7 \<leftarrow> emit f (l6\<lparr>pendingFacet := Some f\<rparr>);
                            Some (Some AsciiFacet, l7\<lparr>pendingFacet := None\<rparr>) } } } }
       = Some (st, l')"
      unfolding asciiVertex_def by simp
    show ?thesis
    proof (cases st)
      case None
      with rest a1' show ?thesis
        by (auto elim!: bind_SomeE split: if_splits
            dest!: acceptRun_adv acceptKeyword_adv expectedKeyword_frame
            simp: adv_def emit_def Let_def)
    next
      case (Some s)
      with rest a1' len show ?thesis
        apply (simp only: option.case)
        apply ((erule bind_SomeE, clarsimp simp: emit_def Let_def split: if_splits)+)
        apply (drule acceptRun_adv acceptKeyword_True)+
        apply (clarsimp simp: adv_def)
        done
    qed
  qed
qed


section \<open>The driver (stl.go, lines 67-79 and 268-281)\<close>

text \<open>
  The measure that the state transitions decrease: a facet block moves the cursor
  forward by at least 7 bytes in \<^verbatim>\<open>asciiFacet\<close> and never backwards in
  \<^verbatim>\<open>asciiVertex\<close>, and the cursor of a state that returns a successor is within the
  capacity.
\<close>

definition state_measure :: "lexer \<Rightarrow> nat" where
  "state_measure l =
     (case state l of
        None \<Rightarrow> 0
      | Some AsciiFileHeader \<Rightarrow> nat (2 * (cap l - pos l)) + 10
      | Some AsciiFacet \<Rightarrow> nat (2 * (cap l - pos l)) + 1
      | Some AsciiVertex \<Rightarrow> nat (2 * (cap l - pos l)) + 2)"

definition loop_measure :: "lexer \<Rightarrow> nat" where
  "loop_measure l = 2 * state_measure l + length (items l)"

lemma call_state_measure:
  assumes "call_state pf st l = Some (Some s, l')" and "state l = Some st"
  shows "state_measure (l'\<lparr>state := Some s\<rparr>) < state_measure l
     \<and> length (items l') \<le> length (items l) + 1"
proof (cases st)
  case AsciiFileHeader
  with assms asciiFileHeader_frame [of l "Some s" l'] show ?thesis
    by (auto simp: state_measure_def adv_def cap_def)
next
  case AsciiFacet
  with assms asciiFacet_frame [of pf l s l'] show ?thesis
    by (auto simp: state_measure_def adv_def cap_def)
next
  case AsciiVertex
  with assms asciiVertex_frame [of pf l "Some s" l'] show ?thesis
    by (auto simp: state_measure_def adv_def cap_def)
qed

text \<open>
  \<^verbatim>\<open>nextFacet\<close>: the \<^verbatim>\<open>select\<close> takes a waiting facet when there is one, and otherwise
  runs the current state; calling a \<^verbatim>\<open>nil\<close> state would panic.
\<close>

function nextFacet :: "parseFloat \<Rightarrow> lexer \<Rightarrow> (Facet option \<times> lexer) option" where
  "nextFacet pf l =
     (case items l of
        item # rest \<Rightarrow> Some (Some item, l\<lparr>items := rest\<rparr>)
      | [] \<Rightarrow>
          (case state l of
             None \<Rightarrow> None
           | Some st \<Rightarrow>
               (case call_state pf st l of
                  None \<Rightarrow> None
                | Some (st', l') \<Rightarrow>
                    (case st' of
                       None \<Rightarrow> Some (None, l'\<lparr>state := None\<rparr>)
                     | Some s \<Rightarrow> nextFacet pf (l'\<lparr>state := Some s\<rparr>)))))"
  by pat_completeness auto
termination
  by (relation "measure (\<lambda>(pf, l). state_measure l)")
     (auto dest: call_state_measure)

declare nextFacet.simps [simp del]

lemma nextFacet_measure:
  "nextFacet pf l = Some (Some f, l') \<Longrightarrow> loop_measure l' < loop_measure l"
proof (induction pf l rule: nextFacet.induct)
  case (1 pf l)
  note run = "1.prems" [unfolded nextFacet.simps [of pf l]]
  show ?case
  proof (cases "items l")
    case (Cons item rest)
    with run show ?thesis
      by (auto simp: loop_measure_def state_measure_def cap_def
          split: option.splits stateFn.splits)
  next
    case Nil
    with run obtain st where st: "state l = Some st" by (cases "state l") auto
    with run Nil obtain st' l1 where cs: "call_state pf st l = Some (st', l1)"
      by (cases "call_state pf st l") auto
    with run Nil st obtain s where s: "st' = Some s" by (cases st') auto
    with run Nil st cs have rec: "nextFacet pf (l1\<lparr>state := Some s\<rparr>) = Some (Some f, l')"
      by simp
    from "1.IH" [OF Nil st cs refl s rec] call_state_measure [OF cs [unfolded s] st]
    show ?thesis by (simp add: loop_measure_def)
  qed
qed

text \<open>
  The loop of \<^verbatim>\<open>parseASCII\<close>, with the call of \<^verbatim>\<open>nextFacet\<close> before the loop and the one
  at the end of its body taken together. The slice of pointers is a list of options,
  \<open>None\<close> for \<^verbatim>\<open>nil\<close>.
\<close>

function facets_loop ::
  "parseFloat \<Rightarrow> lexer \<Rightarrow> Facet option list \<Rightarrow> (Facet option list \<times> lexer) option" where
  "facets_loop pf l facets =
     (case nextFacet pf l of
        None \<Rightarrow> None
      | Some (None, l') \<Rightarrow> Some (facets, l')
      | Some (Some f, l') \<Rightarrow>
          if Valid f then facets_loop pf l' (facets @ [Some f]) else Some (facets, l'))"
  by pat_completeness auto
termination
  by (relation "measure (\<lambda>(pf, l, facets). loop_measure l)")
     (auto dest: nextFacet_measure)

declare facets_loop.simps [simp del]

definition parseASCII ::
  "parseFloat \<Rightarrow> byte list \<Rightarrow> byte list \<Rightarrow> (error + Facet option list) option" where
  "parseASCII pf stl spr =
     do { (facets, l) \<leftarrow> facets_loop pf (lex ''ASCII STL'' stl spr AsciiFileHeader) [];
          case error l of
            Some m \<Rightarrow> Some (Inl (LexerError m))
          | None \<Rightarrow> Some (Inr facets) }"

section \<open>The binary reader (stl.go, lines 283-338)\<close>

text \<open>
  \<^verbatim>\<open>io.ReadFull\<close> on a \<^verbatim>\<open>bytes.Buffer\<close>: \<^verbatim>\<open>io.EOF\<close> when nothing is left,
  \<^verbatim>\<open>io.ErrUnexpectedEOF\<close> when fewer than \<open>n\<close> bytes are, and otherwise the next \<open>n\<close>
  bytes and the rest of the buffer.
\<close>

definition ReadFull :: "nat \<Rightarrow> byte list \<Rightarrow> error + (byte list \<times> byte list)" where
  "ReadFull n buf =
     (if length buf = 0 then Inl io_EOF
      else if length buf < n then Inl io_ErrUnexpectedEOF
      else Inr (take n buf, drop n buf))"

definition LittleEndian_Uint32 :: "byte list \<Rightarrow> 32 word" where
  "LittleEndian_Uint32 b =
     of_char (b ! 0) OR push_bit 8 (of_char (b ! 1)) OR push_bit 16 (of_char (b ! 2))
       OR push_bit 24 (of_char (b ! 3))"

definition LittleEndian_Uint16 :: "byte list \<Rightarrow> 16 word" where
  "LittleEndian_Uint16 b = of_char (b ! 0) OR push_bit 8 (of_char (b ! 1))"

text \<open>\<^verbatim>\<open>binary.Read(r, binary.LittleEndian, &x)\<close> for the three types it is used at.\<close>

definition Read_uint32 :: "byte list \<Rightarrow> error + (32 word \<times> byte list)" where
  "Read_uint32 buf =
     (case ReadFull 4 buf of Inl e \<Rightarrow> Inl e | Inr (bs, rest) \<Rightarrow> Inr (LittleEndian_Uint32 bs, rest))"

definition Read_float32 :: "byte list \<Rightarrow> error + (float32 \<times> byte list)" where
  "Read_float32 buf =
     (case ReadFull 4 buf of Inl e \<Rightarrow> Inl e | Inr (bs, rest) \<Rightarrow> Inr (LittleEndian_Uint32 bs, rest))"

definition Read_uint16 :: "byte list \<Rightarrow> error + (16 word \<times> byte list)" where
  "Read_uint16 buf =
     (case ReadFull 2 buf of Inl e \<Rightarrow> Inl e | Inr (bs, rest) \<Rightarrow> Inr (LittleEndian_Uint16 bs, rest))"

text \<open>
  The loops of \<^verbatim>\<open>parseBinary\<close>. The first reads the three floats of the normal into
  \<^verbatim>\<open>t\<close> and builds \<^verbatim>\<open>normal\<close> from \<^verbatim>\<open>ps\<close>; the second and third fill \<^verbatim>\<open>ps\<close> and \<^verbatim>\<open>vs\<close>.
\<close>

function normal_loop ::
  "nat \<Rightarrow> byte list \<Rightarrow> float32 list \<Rightarrow> Vertex \<Rightarrow> error + (Vertex \<times> byte list)" where
  "normal_loop j triangles ps normal =
     (if j < 3 then
        (case Read_float32 triangles of
           Inl err \<Rightarrow> Inl err
         | Inr (t, triangles') \<Rightarrow>
             normal_loop (j + 1) triangles' ps \<lparr>X = ps ! 0, Y = ps ! 1, Z = ps ! 2\<rparr>)
      else Inr (normal, triangles))"
  by pat_completeness auto
termination
  by (relation "measure (\<lambda>(j, triangles, ps, normal). 3 - j)") auto

declare normal_loop.simps [simp del]

function ps_loop ::
  "nat \<Rightarrow> byte list \<Rightarrow> float32 list \<Rightarrow> error + (float32 list \<times> byte list)" where
  "ps_loop k triangles ps =
     (if k < 3 then
        (case Read_float32 triangles of
           Inl err \<Rightarrow> Inl err
         | Inr (v, triangles') \<Rightarrow> ps_loop (k + 1) triangles' (ps[k := v]))
      else Inr (ps, triangles))"
  by pat_completeness auto
termination
  by (relation "measure (\<lambda>(k, triangles, ps). 3 - k)") auto

declare ps_loop.simps [simp del]

function vs_loop ::
  "nat \<Rightarrow> byte list \<Rightarrow> float32 list \<Rightarrow> Vertex list
     \<Rightarrow> error + (Vertex list \<times> float32 list \<times> byte list)" where
  "vs_loop j triangles ps vs =
     (if j < 3 then
        (case ps_loop 0 triangles ps of
           Inl err \<Rightarrow> Inl err
         | Inr (ps', triangles') \<Rightarrow>
             vs_loop (j + 1) triangles' ps'
               (vs[j := \<lparr>X = ps' ! 0, Y = ps' ! 1, Z = ps' ! 2\<rparr>]))
      else Inr (vs, ps, triangles))"
  by pat_completeness auto
termination
  by (relation "measure (\<lambda>(j, triangles, ps, vs). 3 - j)") auto

declare vs_loop.simps [simp del]

lemma word_less_Suc:
  fixes i n :: "32 word"
  assumes "i < n"
  shows "unat (i + 1) = Suc (unat i)"
proof -
  from assms have "unat i < unat n" by (simp add: word_less_nat_alt)
  moreover have "unat n < 2 ^ 32" using unsigned_less [of n] by simp
  ultimately have "unat i + unat (1 :: 32 word) < 2 ^ LENGTH(32)" by simp
  then show ?thesis by (simp add: unat_add_lem [THEN iffD1])
qed

function triangles_loop ::
  "32 word \<Rightarrow> 32 word \<Rightarrow> byte list \<Rightarrow> float32 list \<Rightarrow> Facet option list
     \<Rightarrow> error + Facet option list" where
  "triangles_loop numTriangles i triangles ps facets =
     (if i < numTriangles then
        (case normal_loop 0 triangles ps zeroVertex of
           Inl err \<Rightarrow> Inl err
         | Inr (normal, triangles1) \<Rightarrow>
             (case vs_loop 0 triangles1 ps zeroVertices of
                Inl err \<Rightarrow> Inl err
              | Inr (vs, ps', triangles2) \<Rightarrow>
                  let facets' =
                    facets[unat i := Some \<lparr>Vertices = vs, Valid = True, Normal = normal\<rparr>]
                  in (case Read_uint16 triangles2 of
                        Inl err \<Rightarrow> Inl err
                      | Inr (ut, triangles3) \<Rightarrow>
                          triangles_loop numTriangles (i + 1) triangles3 ps' facets')))
      else Inr facets)"
  by pat_completeness auto
termination
  by (relation "measure (\<lambda>(numTriangles, i, triangles, ps, facets). unat numTriangles - unat i)")
     (auto simp: word_less_Suc word_less_nat_alt)

declare triangles_loop.simps [simp del]

definition parseBinary :: "byte list \<Rightarrow> error + Facet option list" where
  "parseBinary stl =
     (if length stl < 80 then Inl ErrIncompleteHeader
      else let stl' = drop 80 stl in
        if length stl' < 4 then Inl ErrNoData
        else let l = take 4 stl'; triangles = drop 4 stl' in
          (case Read_uint32 l of
             Inl err \<Rightarrow> Inl err
           | Inr (numTriangles, _) \<Rightarrow>
               triangles_loop numTriangles 0 triangles (replicate 3 0)
                 (replicate (unat numTriangles) None)))"

section \<open>The dispatcher (stl.go, lines 349-366)\<close>

definition ParseSTLBytes ::
  "parseFloat \<Rightarrow> byte list \<Rightarrow> byte list \<Rightarrow> (error + Facet option list) option" where
  "ParseSTLBytes pf stl spr =
     (if length stl < 5 then Some (Inl ErrTooSmall)
      else if take 5 stl = ''solid'' then
        (case parseASCII pf (drop 5 stl) spr of
           None \<Rightarrow> None
         | Some (Inl err) \<Rightarrow>
             (case parseBinary stl of
                Inl err2 \<Rightarrow> Some (Inl err)
              | Inr facets \<Rightarrow> Some (Inr facets))
         | Some (Inr facets) \<Rightarrow> Some (Inr facets))
      else Some (parseBinary stl))"


section \<open>What the binary reader computes\<close>

text \<open>
  \<open>float_at bs k\<close> is the little-endian 32-bit float at offset \<open>k\<close> of \<open>bs\<close>, and
  \<open>vertex_at bs k\<close> the three consecutive floats from offset \<open>k\<close>. A read error is one of
  the two errors of \<^verbatim>\<open>io.ReadFull\<close>.
\<close>

definition float_at :: "byte list \<Rightarrow> nat \<Rightarrow> float32" where
  "float_at bs k = LittleEndian_Uint32 (take 4 (drop k bs))"

definition vertex_at :: "byte list \<Rightarrow> nat \<Rightarrow> Vertex" where
  "vertex_at bs k = \<lparr>X = float_at bs k, Y = float_at bs (k + 4), Z = float_at bs (k + 8)\<rparr>"

definition is_read_error :: "error + 'a \<Rightarrow> bool" where
  "is_read_error r \<longleftrightarrow> r = Inl io_EOF \<or> r = Inl io_ErrUnexpectedEOF"

lemma Read_float32_ok:
  "4 \<le> length buf \<Longrightarrow> Read_float32 buf = Inr (float_at buf 0, drop 4 buf)"
  by (auto simp: Read_float32_def ReadFull_def float_at_def)

lemma Read_float32_short:
  "length buf < 4 \<Longrightarrow> Read_float32 buf = Inl io_EOF \<or> Read_float32 buf = Inl io_ErrUnexpectedEOF"
  by (auto simp: Read_float32_def ReadFull_def)

lemma Read_uint16_ok:
  "2 \<le> length buf \<Longrightarrow> \<exists>ut. Read_uint16 buf = Inr (ut, drop 2 buf)"
  by (auto simp: Read_uint16_def ReadFull_def)

lemma Read_uint16_short:
  "length buf < 2 \<Longrightarrow> Read_uint16 buf = Inl io_EOF \<or> Read_uint16 buf = Inl io_ErrUnexpectedEOF"
  by (auto simp: Read_uint16_def ReadFull_def)

lemma float_at_drop: "float_at (drop n bs) k = float_at bs (n + k)"
  by (simp add: float_at_def add.commute)

lemma vertex_at_drop: "vertex_at (drop n bs) k = vertex_at bs (n + k)"
  by (simp add: vertex_at_def float_at_drop add.assoc)

lemma normal_loop_ok:
  "12 \<le> length tr \<Longrightarrow>
     normal_loop 0 tr ps nm = Inr (\<lparr>X = ps ! 0, Y = ps ! 1, Z = ps ! 2\<rparr>, drop 12 tr)"
  by (simp add: normal_loop.simps Read_float32_ok)

lemma normal_loop_short:
  "length tr < 4 * (3 - j) \<Longrightarrow> is_read_error (normal_loop j tr ps nm)"
proof (induction j tr ps nm rule: normal_loop.induct)
  case (1 j tr ps nm)
  then have j: "j < 3" by simp
  show ?case
  proof (cases "4 \<le> length tr")
    case True
    with "1.prems" j
    have "is_read_error (normal_loop (j + 1) (drop 4 tr) ps \<lparr>X = ps ! 0, Y = ps ! 1, Z = ps ! 2\<rparr>)"
      by (intro "1.IH" [OF j Read_float32_ok [OF True] refl]) simp
    with True j show ?thesis
      by (subst normal_loop.simps) (simp add: Read_float32_ok)
  next
    case False
    with Read_float32_short [of tr] j show ?thesis
      by (subst normal_loop.simps) (auto simp: is_read_error_def)
  qed
qed

lemma length3: "length ps = 3 \<Longrightarrow> \<exists>a b c. ps = [a, b, c]"
  by (simp add: numeral_3_eq_3 length_Suc_conv) blast

lemma ps_loop_ok:
  "12 \<le> length tr \<Longrightarrow> length ps = 3 \<Longrightarrow>
     ps_loop 0 tr ps = Inr ([float_at tr 0, float_at tr 4, float_at tr 8], drop 12 tr)"
  by (drule length3) (auto simp: ps_loop.simps Read_float32_ok float_at_drop)

lemma ps_loop_short:
  "length tr < 4 * (3 - k) \<Longrightarrow> is_read_error (ps_loop k tr ps)"
proof (induction k tr ps rule: ps_loop.induct)
  case (1 k tr ps)
  then have k: "k < 3" by simp
  show ?case
  proof (cases "4 \<le> length tr")
    case True
    with "1.prems" k
    have "is_read_error (ps_loop (k + 1) (drop 4 tr) (ps[k := float_at tr 0]))"
      by (intro "1.IH" [OF k Read_float32_ok [OF True] refl]) simp
    with True k show ?thesis
      by (subst ps_loop.simps) (simp add: Read_float32_ok)
  next
    case False
    with Read_float32_short [of tr] k show ?thesis
      by (subst ps_loop.simps) (auto simp: is_read_error_def)
  qed
qed

lemma vs_loop_ok:
  "36 \<le> length tr \<Longrightarrow> length ps = 3 \<Longrightarrow>
     vs_loop 0 tr ps zeroVertices =
       Inr ([vertex_at tr 0, vertex_at tr 12, vertex_at tr 24],
            [float_at tr 24, float_at tr 28, float_at tr 32], drop 36 tr)"
  by (simp add: vs_loop.simps ps_loop_ok zeroVertices_def vertex_at_def float_at_drop
      numeral_3_eq_3)

lemma vs_loop_short:
  "length tr < 12 * (3 - j) \<Longrightarrow> length ps = 3 \<Longrightarrow> is_read_error (vs_loop j tr ps vs)"
proof (induction j tr ps vs rule: vs_loop.induct)
  case (1 j tr ps vs)
  then have j: "j < 3" by simp
  show ?case
  proof (cases "12 \<le> length tr")
    case True
    note ok = ps_loop_ok [OF True "1.prems"(2)]
    from "1.prems" j True
    have "is_read_error (vs_loop (j + 1) (drop 12 tr) [float_at tr 0, float_at tr 4, float_at tr 8]
       (vs[j := \<lparr>X = [float_at tr 0, float_at tr 4, float_at tr 8] ! 0,
                 Y = [float_at tr 0, float_at tr 4, float_at tr 8] ! 1,
                 Z = [float_at tr 0, float_at tr 4, float_at tr 8] ! 2\<rparr>]))"
      by (intro "1.IH" [OF j ok refl]) simp_all
    with ok j show ?thesis
      by (subst vs_loop.simps) simp
  next
    case False
    with ps_loop_short [of tr 0 ps] j show ?thesis
      by (subst vs_loop.simps) (auto simp: is_read_error_def)
  qed
qed


text \<open>
  The facet that the loop stores at index \<open>k\<close> when it starts with the bytes \<open>tr\<close> and
  the scratch array \<open>ps\<close>: its vertices are read at the offsets 12, 24 and 36 of record
  \<open>k\<close>; its normal is what \<open>ps\<close> holds when the record is begun.
\<close>

definition facet_from :: "byte list \<Rightarrow> float32 list \<Rightarrow> nat \<Rightarrow> Facet" where
  "facet_from tr ps k =
     \<lparr>Vertices = [vertex_at tr (50 * k + 12), vertex_at tr (50 * k + 24),
                  vertex_at tr (50 * k + 36)],
      Valid = True,
      Normal = (if k = 0 then \<lparr>X = ps ! 0, Y = ps ! 1, Z = ps ! 2\<rparr>
                else vertex_at tr (50 * (k - 1) + 36))\<rparr>"

lemma triangles_loop_step:
  assumes "i < n" and "50 \<le> length tr" and "length ps = 3"
  shows "triangles_loop n i tr ps facets =
     triangles_loop n (i + 1) (drop 50 tr) [float_at tr 36, float_at tr 40, float_at tr 44]
       (facets[unat i := Some (facet_from tr ps 0)])"
proof -
  from assms have n: "normal_loop 0 tr ps zeroVertex
      = Inr (\<lparr>X = ps ! 0, Y = ps ! 1, Z = ps ! 2\<rparr>, drop 12 tr)"
    by (simp add: normal_loop_ok)
  from assms have v: "vs_loop 0 (drop 12 tr) ps zeroVertices =
       Inr ([vertex_at tr 12, vertex_at tr 24, vertex_at tr 36],
            [float_at tr 36, float_at tr 40, float_at tr 44], drop 48 tr)"
    by (simp add: vs_loop_ok vertex_at_drop float_at_drop)
  from assms have "2 \<le> length (drop 48 tr)" by simp
  from Read_uint16_ok [OF this] obtain ut where
    u: "Read_uint16 (drop 48 tr) = Inr (ut, drop 50 tr)"
    by auto
  from assms(1) n v u show ?thesis
    by (subst triangles_loop.simps) (simp add: facet_from_def)
qed

lemma triangles_loop_short:
  assumes "i < n" and "length tr < 50" and "length ps = 3"
  shows "is_read_error (triangles_loop n i tr ps facets)"
proof (cases "12 \<le> length tr")
  case False
  then have "length tr < 4 * (3 - 0)" by simp
  from normal_loop_short [OF this, of ps zeroVertex] assms(1) show ?thesis
    by (subst triangles_loop.simps) (auto simp: is_read_error_def)
next
  case True
  then have n: "normal_loop 0 tr ps zeroVertex
      = Inr (\<lparr>X = ps ! 0, Y = ps ! 1, Z = ps ! 2\<rparr>, drop 12 tr)"
    by (simp add: normal_loop_ok)
  show ?thesis
  proof (cases "48 \<le> length tr")
    case False
    then have "length (drop 12 tr) < 12 * (3 - 0)" by simp
    from vs_loop_short [OF this assms(3), of zeroVertices] assms(1) n show ?thesis
      by (subst triangles_loop.simps) (auto simp: is_read_error_def)
  next
    case True
    with assms have v: "vs_loop 0 (drop 12 tr) ps zeroVertices =
         Inr ([vertex_at tr 12, vertex_at tr 24, vertex_at tr 36],
              [float_at tr 36, float_at tr 40, float_at tr 44], drop 48 tr)"
      by (simp add: vs_loop_ok vertex_at_drop float_at_drop)
    from assms(2) have "length (drop 48 tr) < 2" by simp
    from Read_uint16_short [OF this] assms(1) n v show ?thesis
      by (subst triangles_loop.simps) (auto simp: is_read_error_def)
  qed
qed

lemma facet_from_Suc:
  "facet_from tr ps (Suc k) =
     facet_from (drop 50 tr) [float_at tr 36, float_at tr 40, float_at tr 44] k"
  by (cases k) (simp_all add: facet_from_def vertex_at_def float_at_drop)

lemma triangles_loop_complete:
  "unat n - unat i = m \<Longrightarrow> i \<le> n \<Longrightarrow> 50 * m \<le> length tr \<Longrightarrow> length ps = 3 \<Longrightarrow>
   length facets = unat n \<Longrightarrow>
     triangles_loop n i tr ps facets =
       Inr (take (unat i) facets @ map (\<lambda>k. Some (facet_from tr ps k)) [0..<m])"
proof (induction m arbitrary: i tr ps facets)
  case 0
  then have "unat n \<le> unat i" by simp
  moreover from 0 have "unat i \<le> unat n" by (simp add: word_le_nat_alt)
  ultimately have "\<not> i < n" "unat i = unat n" by (simp_all add: word_less_nat_alt)
  with 0 show ?case by (subst triangles_loop.simps) simp
next
  case (Suc m)
  then have lt: "i < n" by (simp add: word_less_nat_alt)
  note s = word_less_Suc [OF lt]
  from lt have le: "i + 1 \<le> n" by (rule inc_le)
  from Suc.prems lt have u: "unat i < length facets" by (simp add: word_less_nat_alt)
  have "triangles_loop n i tr ps facets =
     triangles_loop n (i + 1) (drop 50 tr) [float_at tr 36, float_at tr 40, float_at tr 44]
       (facets[unat i := Some (facet_from tr ps 0)])"
    using lt Suc.prems by (intro triangles_loop_step) simp_all
  also have "\<dots> = Inr (take (unat (i + 1)) (facets[unat i := Some (facet_from tr ps 0)]) @
      map (\<lambda>k. Some (facet_from (drop 50 tr)
        [float_at tr 36, float_at tr 40, float_at tr 44] k)) [0..<m])"
    using Suc.prems s le by (intro Suc.IH) simp_all
  also have "take (unat (i + 1)) (facets[unat i := Some (facet_from tr ps 0)])
      = take (unat i) facets @ [Some (facet_from tr ps 0)]"
    using u by (simp add: s take_Suc_conv_app_nth)
  also have "map (\<lambda>k. Some (facet_from (drop 50 tr)
        [float_at tr 36, float_at tr 40, float_at tr 44] k)) [0..<m]
      = map (\<lambda>k. Some (facet_from tr ps k)) (map Suc [0..<m])"
    by (simp add: facet_from_Suc)
  finally show ?case
    by (simp add: upt_conv_Cons map_Suc_upt del: upt_Suc)
qed

lemma triangles_loop_truncated:
  "unat n - unat i = m \<Longrightarrow> i \<le> n \<Longrightarrow> length tr < 50 * m \<Longrightarrow> length ps = 3 \<Longrightarrow>
     is_read_error (triangles_loop n i tr ps facets)"
proof (induction m arbitrary: i tr ps facets)
  case 0
  then show ?case by simp
next
  case (Suc m)
  then have lt: "i < n" by (simp add: word_less_nat_alt)
  note s = word_less_Suc [OF lt]
  from lt have le: "i + 1 \<le> n" by (rule inc_le)
  show ?case
  proof (cases "50 \<le> length tr")
    case False
    with lt Suc.prems show ?thesis by (intro triangles_loop_short) simp_all
  next
    case True
    have "is_read_error (triangles_loop n (i + 1) (drop 50 tr)
        [float_at tr 36, float_at tr 40, float_at tr 44]
        (facets[unat i := Some (facet_from tr ps 0)]))"
      using Suc.prems s le True by (intro Suc.IH) simp_all
    with triangles_loop_step [OF lt True Suc.prems(4)] show ?thesis by simp
  qed
qed


text \<open>The count field of a binary buffer, and the number of bytes it announces.\<close>

definition declared_count :: "byte list \<Rightarrow> nat" where
  "declared_count stl = unat (LittleEndian_Uint32 (take 4 (drop 80 stl)))"

lemma parseBinary_unfold:
  "84 \<le> length stl \<Longrightarrow>
     parseBinary stl =
       triangles_loop (LittleEndian_Uint32 (take 4 (drop 80 stl))) 0 (drop 84 stl)
         (replicate 3 0) (replicate (declared_count stl) None)"
  by (auto simp: parseBinary_def Read_uint32_def ReadFull_def Let_def declared_count_def)

lemma parseBinary_complete:
  assumes "84 + 50 * declared_count stl \<le> length stl"
  shows "parseBinary stl =
     Inr (map (\<lambda>k. Some (facet_from (drop 84 stl) (replicate 3 0) k)) [0..<declared_count stl])"
proof -
  from assms have len: "84 \<le> length stl" by simp
  have "triangles_loop (LittleEndian_Uint32 (take 4 (drop 80 stl))) 0 (drop 84 stl)
         (replicate 3 0) (replicate (declared_count stl) None) =
       Inr (take (unat (0 :: 32 word)) (replicate (declared_count stl) None) @
         map (\<lambda>k. Some (facet_from (drop 84 stl) (replicate 3 0) k)) [0..<declared_count stl])"
    using assms by (intro triangles_loop_complete) (simp_all add: declared_count_def)
  with len show ?thesis by (simp add: parseBinary_unfold)
qed

lemma parseBinary_truncated:
  assumes "84 \<le> length stl" and "length stl < 84 + 50 * declared_count stl"
  shows "is_read_error (parseBinary stl)"
proof -
  have "is_read_error (triangles_loop (LittleEndian_Uint32 (take 4 (drop 80 stl))) 0
      (drop 84 stl) (replicate 3 0) (replicate (declared_count stl) None))"
    using assms by (intro triangles_loop_truncated [where m = "declared_count stl"])
      (simp_all add: declared_count_def)
  with assms(1) show ?thesis by (simp add: parseBinary_unfold)
qed

lemma parseBinary_Inr_length:
  assumes "parseBinary stl = Inr facets"
  shows "84 + 50 * declared_count stl \<le> length stl"
proof (rule ccontr)
  assume neg: "\<not> ?thesis"
  show False
  proof (cases "84 \<le> length stl")
    case True
    with neg parseBinary_truncated [of stl] assms show False
      by (simp add: is_read_error_def)
  next
    case False
    with assms show False
      by (auto simp: parseBinary_def Let_def split: if_splits)
  qed
qed


lemma float_at_append: "k + 4 \<le> length bs \<Longrightarrow> float_at (bs @ ys) k = float_at bs k"
  by (simp add: float_at_def)

lemma vertex_at_append: "k + 12 \<le> length bs \<Longrightarrow> vertex_at (bs @ ys) k = vertex_at bs k"
  by (simp add: vertex_at_def float_at_append)

lemma facet_from_append:
  "50 * Suc k \<le> length bs \<Longrightarrow> facet_from (bs @ ys) ps k = facet_from bs ps k"
  by (cases k) (simp_all add: facet_from_def vertex_at_append)

lemma facet_from_complete:
  "Valid (facet_from tr ps k) \<and> length (Vertices (facet_from tr ps k)) = 3"
  by (simp add: facet_from_def)

section \<open>The test data of the package (stl\_test.go)\<close>

text \<open>
  The two 50-byte records of \<^verbatim>\<open>TestSimpleBinaryParse\<close>, and its input: a header of 80 zero
  bytes, the count 2 and the two records. \<^verbatim>\<open>TestNonStandardBinaryParse\<close> has the same
  bytes but for a header that begins with the text \<^verbatim>\<open>solid\<close>.
\<close>

definition record_one :: "byte list" where
  "record_one =
     [CHR 0x00, CHR 0x00, CHR 0x80, CHR 0x3F, CHR 0x00, CHR 0x00, CHR 0x00, CHR 0x00, CHR 0x00, CHR 0x00,
      CHR 0x00, CHR 0x00, CHR 0x00, CHR 0x00, CHR 0x00, CHR 0xC0, CHR 0x00, CHR 0x00, CHR 0x00, CHR 0x3F,
      CHR 0x00, CHR 0x00, CHR 0x00, CHR 0xBF, CHR 0x00, CHR 0x00, CHR 0x00, CHR 0xC0, CHR 0x00, CHR 0x00,
      CHR 0xC0, CHR 0x3F, CHR 0x00, CHR 0x00, CHR 0x00, CHR 0xBF, CHR 0x00, CHR 0x00, CHR 0x00, CHR 0xC0,
      CHR 0x00, CHR 0x00, CHR 0xC0, CHR 0x3F, CHR 0x00, CHR 0x00, CHR 0x00, CHR 0x3F, CHR 0x00, CHR 0x00]"

definition record_two :: "byte list" where
  "record_two =
     [CHR 0x00, CHR 0x00, CHR 0x80, CHR 0x3F, CHR 0x00, CHR 0x00, CHR 0x00, CHR 0x00, CHR 0x00, CHR 0x00,
      CHR 0x00, CHR 0x80, CHR 0x00, CHR 0x00, CHR 0x00, CHR 0xC0, CHR 0x00, CHR 0x00, CHR 0x00, CHR 0x3F,
      CHR 0x00, CHR 0x00, CHR 0x00, CHR 0x3F, CHR 0x00, CHR 0x00, CHR 0x00, CHR 0xC0, CHR 0x00, CHR 0x00,
      CHR 0x00, CHR 0x3F, CHR 0x00, CHR 0x00, CHR 0x00, CHR 0xBF, CHR 0x00, CHR 0x00, CHR 0x00, CHR 0xC0,
      CHR 0x00, CHR 0x00, CHR 0xC0, CHR 0x3F, CHR 0x00, CHR 0x00, CHR 0x00, CHR 0x3F, CHR 0x00, CHR 0x00]"

definition simple_binary :: "byte list" where
  "simple_binary =
     replicate 80 (CHR 0x00) @ [CHR 0x02, CHR 0x00, CHR 0x00, CHR 0x00]
       @ record_one @ record_two"

definition nonstandard_binary :: "byte list" where
  "nonstandard_binary =
     ''solid'' @ replicate 75 (CHR 0x00) @ [CHR 0x02, CHR 0x00, CHR 0x00, CHR 0x00]
       @ record_one @ record_two"

text \<open>The two facets that the binary reader returns for both inputs.\<close>

definition facet_one :: Facet where
  "facet_one =
     \<lparr>Vertices = [\<lparr>X = 0xC0000000, Y = 0x3F000000, Z = 0xBF000000\<rparr>,
                  \<lparr>X = 0xC0000000, Y = 0x3FC00000, Z = 0xBF000000\<rparr>,
                  \<lparr>X = 0xC0000000, Y = 0x3FC00000, Z = 0x3F000000\<rparr>],
      Valid = True,
      Normal = \<lparr>X = 0, Y = 0, Z = 0\<rparr>\<rparr>"

definition facet_two :: Facet where
  "facet_two =
     \<lparr>Vertices = [\<lparr>X = 0xC0000000, Y = 0x3F000000, Z = 0x3F000000\<rparr>,
                  \<lparr>X = 0xC0000000, Y = 0x3F000000, Z = 0xBF000000\<rparr>,
                  \<lparr>X = 0xC0000000, Y = 0x3FC00000, Z = 0x3F000000\<rparr>],
      Valid = True,
      Normal = \<lparr>X = 0xC0000000, Y = 0x3FC00000, Z = 0x3F000000\<rparr>\<rparr>"

lemma length_simple_binary: "length simple_binary = 184"
  by (simp add: simple_binary_def record_one_def record_two_def)

lemma declared_count_simple_binary: "declared_count simple_binary = 2"
  by (simp add: declared_count_def simple_binary_def LittleEndian_Uint32_def)

lemma drop_84_simple_binary: "drop 84 simple_binary = record_one @ record_two"
  by (simp add: simple_binary_def)

lemma facets_of_records:
  "map (\<lambda>k. Some (facet_from (record_one @ record_two) (replicate 3 0) k)) [0..<2]
     = [Some facet_one, Some facet_two]"
  by (simp add: facet_from_def vertex_at_def float_at_def LittleEndian_Uint32_def
      record_one_def record_two_def facet_one_def facet_two_def numeral_2_eq_2
      numeral_3_eq_3)

lemma parseBinary_simple_binary: "parseBinary simple_binary = Inr [Some facet_one, Some facet_two]"
  using parseBinary_complete [of simple_binary]
  by (simp only: length_simple_binary declared_count_simple_binary drop_84_simple_binary
      facets_of_records)

lemma length_nonstandard_binary: "length nonstandard_binary = 184"
  by (simp add: nonstandard_binary_def record_one_def record_two_def)

lemma declared_count_nonstandard_binary: "declared_count nonstandard_binary = 2"
  by (simp add: declared_count_def nonstandard_binary_def LittleEndian_Uint32_def)

lemma drop_84_nonstandard_binary: "drop 84 nonstandard_binary = record_one @ record_two"
  by (simp add: nonstandard_binary_def)

lemma parseBinary_nonstandard_binary:
  "parseBinary nonstandard_binary = Inr [Some facet_one, Some facet_two]"
  using parseBinary_complete [of nonstandard_binary]
  by (simp only: length_nonstandard_binary declared_count_nonstandard_binary
      drop_84_nonstandard_binary facets_of_records)


section \<open>Claims about the binary reader\<close>




text \<open>
  C10. A binary buffer made of the 80-byte header, the count N, the N complete 50-byte
  records and any further bytes decodes to exactly N facets, the same ones as without the
  further bytes: what follows the declared records is never read and causes no error.
\<close>

theorem parseBinary_ignores_trailing_bytes:
  assumes "length header = 80" and "length count = 4"
    and "length records = 50 * unat (LittleEndian_Uint32 count)"
  shows "parseBinary (header @ count @ records @ extra) = parseBinary (header @ count @ records)
     \<and> (\<exists>facets. parseBinary (header @ count @ records @ extra) = Inr facets
           \<and> length facets = unat (LittleEndian_Uint32 count)
           \<and> (\<forall>p \<in> set facets. p \<noteq> None))"
proof -
  let ?n = "unat (LittleEndian_Uint32 count)"
  from assms have c1: "declared_count (header @ count @ records @ extra) = ?n"
    and c2: "declared_count (header @ count @ records) = ?n"
    by (simp_all add: declared_count_def)
  from assms have d1: "drop 84 (header @ count @ records @ extra) = records @ extra"
    and d2: "drop 84 (header @ count @ records) = records"
    by simp_all
  have r1: "parseBinary (header @ count @ records @ extra) =
      Inr (map (\<lambda>k. Some (facet_from (records @ extra) (replicate 3 0) k)) [0..<?n])"
    using parseBinary_complete [of "header @ count @ records @ extra"] assms
    by (simp only: c1 d1) simp
  have r2: "parseBinary (header @ count @ records) =
      Inr (map (\<lambda>k. Some (facet_from records (replicate 3 0) k)) [0..<?n])"
    using parseBinary_complete [of "header @ count @ records"] assms
    by (simp only: c2 d2) simp
  have same: "map (\<lambda>k. Some (facet_from (records @ extra) (replicate 3 0) k)) [0..<?n]
      = map (\<lambda>k. Some (facet_from records (replicate 3 0) k)) [0..<?n]"
    using assms(3) by (intro map_cong refl) (simp add: facet_from_append)
  from r1 r2 same show ?thesis by auto
qed

theorem parseBinary_ignores_trailing_bytes_witness:
  "parseBinary (simple_binary @ ''trailing bytes'') = parseBinary simple_binary
   \<and> parseBinary (simple_binary @ ''trailing bytes'') = Inr [Some facet_one, Some facet_two]"
proof -
  have n: "unat (LittleEndian_Uint32 [CHR 0x02, CHR 0x00, CHR 0x00, CHR 0x00]) = 2"
    by (simp add: LittleEndian_Uint32_def)
  have "length (record_one @ record_two) =
      50 * unat (LittleEndian_Uint32 [CHR 0x02, CHR 0x00, CHR 0x00, CHR 0x00])"
    by (simp add: n record_one_def record_two_def)
  from parseBinary_ignores_trailing_bytes [of "replicate 80 (CHR 0x00)"
      "[CHR 0x02, CHR 0x00, CHR 0x00, CHR 0x00]" "record_one @ record_two" "''trailing bytes''",
      OF _ _ this]
  have "parseBinary (simple_binary @ ''trailing bytes'') = parseBinary simple_binary"
    by (simp add: simple_binary_def)
  then show ?thesis by (simp add: parseBinary_simple_binary)
qed

text \<open>
  C3. In the binary reader the Normal of a returned facet is not read from the facet's
  record: the normal of the facet at index 0 is the zero vector, and the normal of the
  facet at an index \<open>i > 0\<close> is the third vertex of the facet at index \<open>i - 1\<close>, which is
  what the scratch array of the vertex decoding still holds.
\<close>

theorem binary_normal_is_stale:
  assumes "parseBinary stl = Inr facets" and "i < length facets"
  shows "\<exists>f. facets ! i = Some f \<and>
     Normal f = (if i = 0 then zeroVertex else Vertices (the (facets ! (i - 1))) ! 2)"
proof -
  note len = parseBinary_Inr_length [OF assms(1)]
  from parseBinary_complete [OF len] assms(1)
  have fs: "facets =
      map (\<lambda>k. Some (facet_from (drop 84 stl) (replicate 3 0) k)) [0..<declared_count stl]"
    by simp
  with assms(2) have i: "i < declared_count stl" by simp
  show ?thesis
  proof (cases i)
    case 0
    with i fs show ?thesis
      by (simp add: facet_from_def zeroVertex_def numeral_3_eq_3)
  next
    case (Suc j)
    with i fs show ?thesis
      by (simp add: facet_from_def)
  qed
qed

theorem binary_normal_is_stale_witness:
  "parseBinary simple_binary = Inr [Some facet_one, Some facet_two]
   \<and> Normal facet_one = zeroVertex
   \<and> Normal facet_two = Vertices facet_one ! 2
   \<and> Normal facet_two \<noteq> vertex_at record_two 0"
proof -
  have "vertex_at record_two 0 = \<lparr>X = 0x3F800000, Y = 0, Z = 0x80000000\<rparr>"
    by (simp add: vertex_at_def float_at_def LittleEndian_Uint32_def record_two_def)
  with binary_normal_is_stale [OF parseBinary_simple_binary, of 0]
    binary_normal_is_stale [OF parseBinary_simple_binary, of 1]
  show ?thesis
    by (auto simp: parseBinary_simple_binary facet_one_def facet_two_def)
qed


lemma nonstandard_binary_prefix: "take 5 nonstandard_binary = ''solid''"
  by (simp add: nonstandard_binary_def)

lemma simple_binary_prefix: "take 5 simple_binary \<noteq> ''solid''"
  by (simp add: simple_binary_def eval_nat_numeral)

lemmas lexer_eval =
  parseASCII_def facets_loop.simps nextFacet.simps lex_def asciiFileHeader_def asciiFacet_def
  asciiVertex_def vertex_loop.simps xyz_loop.simps normalComponent_def acceptNumber_def
  acceptKeyword_def acceptRun_def acceptRun_loop.simps accept_def next_rune_def backup_def
  ignore_def slice_def cap_def emit_def errorf_def expectedKeyword_def expectedNumber_def
  IndexRune_found_def spaces_def ident_def floatDigits_def zeroVertices_def zeroVertex_def
  Let_def numeral_3_eq_3

lemma parseASCII_nonstandard_binary:
  "parseASCII pf (drop 5 nonstandard_binary) spr =
     Some (Inl (LexerError (ExpectedKeyword ''facet'' 0 (replicate 5 (CHR 0x00)))))"
  by (simp add: nonstandard_binary_def record_one_def record_two_def eval_nat_numeral
      lexer_eval)


section \<open>Claims about the dispatcher\<close>

text \<open>
  C1. For a buffer of at least 5 bytes that begins with \<^verbatim>\<open>solid\<close>, when the ASCII parse
  of the bytes after offset 5 returns an error, \<^verbatim>\<open>ParseSTLBytes\<close> runs the binary reader
  on the whole buffer, prefix included: a successful binary decode is returned and the
  ASCII error is dropped, and when the binary decode fails too the result is the ASCII
  error, not the binary one.
\<close>

theorem ParseSTLBytes_fallback:
  assumes "5 \<le> length stl" and "take 5 stl = ''solid''"
    and "parseASCII pf (drop 5 stl) spr = Some (Inl err)"
  shows "ParseSTLBytes pf stl spr =
     Some (case parseBinary stl of Inr facets \<Rightarrow> Inr facets | Inl err2 \<Rightarrow> Inl err)"
  using assms by (simp add: ParseSTLBytes_def split: sum.splits)

theorem ParseSTLBytes_fallback_witness:
  "ParseSTLBytes (\<lambda>s. None) nonstandard_binary [] = Some (Inr [Some facet_one, Some facet_two])
   \<and> ParseSTLBytes (\<lambda>s. None) (take 79 nonstandard_binary) [] =
       Some (Inl (LexerError (ExpectedKeyword ''facet'' 0 (replicate 5 (CHR 0x00)))))"
proof -
  have short: "parseASCII (\<lambda>s. None) (drop 5 (take 79 nonstandard_binary)) [] =
     Some (Inl (LexerError (ExpectedKeyword ''facet'' 0 (replicate 5 (CHR 0x00)))))"
    by (simp add: nonstandard_binary_def eval_nat_numeral lexer_eval)
  have bin: "parseBinary (take 79 nonstandard_binary) = Inl ErrIncompleteHeader"
    by (simp add: parseBinary_def)
  from ParseSTLBytes_fallback [OF _ nonstandard_binary_prefix parseASCII_nonstandard_binary,
      of "\<lambda>s. None" "[]"]
    ParseSTLBytes_fallback [OF _ _ short]
  show ?thesis
    by (simp add: length_nonstandard_binary parseBinary_nonstandard_binary bin
        nonstandard_binary_prefix)
qed

text \<open>
  C2. A well-formed binary input with count N decodes to N facets in record order, each
  with its three vertices read from the bytes 12-47 of its own record; but the Normal is
  not read from the bytes 0-11 of the record. On the input of \<^verbatim>\<open>TestSimpleBinaryParse\<close>
  the first record holds the normal (1, 0, 0), bit pattern \<open>0x3F800000\<close> for 1, and the
  first facet returned has the normal (0, 0, 0).
\<close>

theorem binary_normal_not_from_record:
  "ParseSTLBytes pf simple_binary spr = Some (Inr [Some facet_one, Some facet_two])
   \<and> Normal facet_one = \<lparr>X = 0, Y = 0, Z = 0\<rparr>
   \<and> vertex_at record_one 0 = \<lparr>X = 0x3F800000, Y = 0, Z = 0\<rparr>
   \<and> Vertices facet_one = [vertex_at record_one 12, vertex_at record_one 24, vertex_at record_one 36]"
proof -
  have "ParseSTLBytes pf simple_binary spr = Some (parseBinary simple_binary)"
    by (simp add: ParseSTLBytes_def length_simple_binary simple_binary_prefix)
  moreover have "vertex_at record_one 0 = \<lparr>X = 0x3F800000, Y = 0, Z = 0\<rparr>"
    by (simp add: vertex_at_def float_at_def LittleEndian_Uint32_def record_one_def)
  moreover have "Vertices facet_one =
      [vertex_at record_one 12, vertex_at record_one 24, vertex_at record_one 36]"
    by (simp add: vertex_at_def float_at_def LittleEndian_Uint32_def record_one_def
        facet_one_def)
  ultimately show ?thesis
    by (simp add: parseBinary_simple_binary facet_one_def)
qed


section \<open>Claims about the ASCII lexer\<close>

text \<open>A facet is complete when its flag is set and it has three vertices.\<close>

definition complete :: "Facet \<Rightarrow> bool" where
  "complete f \<longleftrightarrow> Valid f \<and> length (Vertices f) = 3"

definition complete_ptr :: "Facet option \<Rightarrow> bool" where
  "complete_ptr p = (case p of None \<Rightarrow> False | Some f \<Rightarrow> complete f)"

lemma call_state_complete:
  assumes "call_state pf st l = Some (st', l')" and "list_all complete (items l)"
  shows "list_all complete (items l')"
proof (cases st)
  case AsciiFileHeader
  with assms asciiFileHeader_frame [of l st' l'] show ?thesis by (simp add: adv_def)
next
  case AsciiFacet
  with assms asciiFacet_items [of pf l st' l'] show ?thesis by simp
next
  case AsciiVertex
  with assms asciiVertex_frame [of pf l st' l'] show ?thesis
    by (cases st') (auto simp: complete_def)
qed

lemma nextFacet_complete:
  "nextFacet pf l = Some (r, l') \<Longrightarrow> list_all complete (items l) \<Longrightarrow>
     list_all complete (items l') \<and> (case r of None \<Rightarrow> True | Some f \<Rightarrow> complete f)"
proof (induction pf l rule: nextFacet.induct)
  case (1 pf l)
  note run = "1.prems"(1) [unfolded nextFacet.simps [of pf l]]
  show ?case
  proof (cases "items l")
    case (Cons item rest)
    with run "1.prems"(2) show ?thesis by auto
  next
    case Nil
    with run obtain st where st: "state l = Some st" by (cases "state l") auto
    with run Nil obtain st' l1 where cs: "call_state pf st l = Some (st', l1)"
      by (cases "call_state pf st l") auto
    note c1 = call_state_complete [OF cs "1.prems"(2)]
    show ?thesis
    proof (cases st')
      case None
      with run Nil st cs c1 show ?thesis by auto
    next
      case (Some s)
      with run Nil st cs have rec: "nextFacet pf (l1\<lparr>state := Some s\<rparr>) = Some (r, l')"
        by simp
      from c1 have "list_all complete (items (l1\<lparr>state := Some s\<rparr>))" by simp
      from "1.IH" [OF Nil st cs refl Some rec this] show ?thesis .
    qed
  qed
qed

lemma facets_loop_complete:
  "facets_loop pf l acc = Some (facets, l') \<Longrightarrow> list_all complete (items l) \<Longrightarrow>
     list_all complete_ptr acc \<Longrightarrow> list_all complete_ptr facets"
proof (induction pf l acc rule: facets_loop.induct)
  case (1 pf l acc)
  note run = "1.prems"(1) [unfolded facets_loop.simps [of pf l acc]]
  from run obtain r l1 where nf: "nextFacet pf l = Some (r, l1)"
    by (cases "nextFacet pf l") auto
  note c = nextFacet_complete [OF nf "1.prems"(2)]
  show ?case
  proof (cases r)
    case None
    with run nf "1.prems"(3) show ?thesis by simp
  next
    case (Some f)
    show ?thesis
    proof (cases "Valid f")
      case False
      with run nf Some "1.prems"(3) show ?thesis by simp
    next
      case True
      with run nf Some have rec: "facets_loop pf l1 (acc @ [Some f]) = Some (facets, l')"
        by simp
      from c Some have "complete_ptr (Some f)" by (simp add: complete_ptr_def)
      with "1.prems"(3) have "list_all complete_ptr (acc @ [Some f])" by simp
      from "1.IH" [OF nf refl Some True rec _ this] c show ?thesis by simp
    qed
  qed
qed

lemma parseASCII_complete:
  "parseASCII pf stl spr = Some (Inr facets) \<Longrightarrow> list_all complete_ptr facets"
  unfolding parseASCII_def
  by (auto elim!: bind_SomeE split: option.splits
      dest!: facets_loop_complete simp: lex_def)

lemma parseBinary_all_complete:
  assumes "parseBinary stl = Inr facets"
  shows "list_all complete_ptr facets"
proof -
  from parseBinary_complete [OF parseBinary_Inr_length [OF assms]] assms
  show ?thesis
    by (auto simp: list_all_iff complete_ptr_def complete_def facet_from_complete)
qed

text \<open>
  C8. Every facet that \<^verbatim>\<open>ParseSTLBytes\<close> returns, by the ASCII path or by the binary one,
  is a facet (no \<^verbatim>\<open>nil\<close> pointer) whose flag \<^verbatim>\<open>Valid\<close> is set and which has its three
  vertices: the pending facet of the lexer, whose flag is not set, never reaches the
  caller.
\<close>

theorem returned_facets_complete:
  assumes "ParseSTLBytes pf stl spr = Some (Inr facets)" and "p \<in> set facets"
  shows "\<exists>f. p = Some f \<and> Valid f \<and> length (Vertices f) = 3"
proof -
  from assms(1) have "list_all complete_ptr facets"
    by (auto simp: ParseSTLBytes_def split: if_splits option.splits sum.splits
        dest: parseASCII_complete parseBinary_all_complete)
  with assms(2) show ?thesis
    by (auto simp: list_all_iff complete_ptr_def complete_def split: option.splits)
qed


text \<open>
  The input of \<^verbatim>\<open>TestSimpleASCIIParse\<close>, and \<^verbatim>\<open>strconv.ParseFloat\<close> on the literals that occur
  in it (their IEEE-754 bit patterns); every other text is rejected by this table.
\<close>

definition simple_ascii :: "byte list" where
  "simple_ascii =
     ''solid OpenSCAD_Model'' @ [CHR 0x0A] @
     ''  facet normal 1 0 0'' @ [CHR 0x0A] @
     ''    outer loop'' @ [CHR 0x0A] @
     ''      vertex -2 0.5 -0.5'' @ [CHR 0x0A] @
     ''      vertex -2 1.5 -0.5'' @ [CHR 0x0A] @
     ''      vertex -2 1.5 0.5'' @ [CHR 0x0A] @
     ''    endloop'' @ [CHR 0x0A] @
     ''  endfacet'' @ [CHR 0x0A] @
     ''  facet normal 1 0 -0'' @ [CHR 0x0A] @
     ''    outer loop'' @ [CHR 0x0A] @
     ''      vertex -2 0.5 0.5'' @ [CHR 0x0A] @
     ''      vertex -2 0.5 -0.5'' @ [CHR 0x0A] @
     ''      vertex -2 1.5 0.5'' @ [CHR 0x0A] @
     ''    endloop'' @ [CHR 0x0A] @
     ''  endfacet'' @ [CHR 0x0A] @
     ''endsolid OpenSCAD_Model''"

definition test_floats :: parseFloat where
  "test_floats =
     map_of [(''0'', 0), (''-0'', 0x80000000), (''1'', 0x3F800000), (''-2'', 0xC0000000),
             (''0.5'', 0x3F000000), (''-0.5'', 0xBF000000), (''1.5'', 0x3FC00000)]"

definition ascii_facet_one :: Facet where
  "ascii_facet_one =
     \<lparr>Vertices = [\<lparr>X = 0xC0000000, Y = 0x3F000000, Z = 0xBF000000\<rparr>,
                  \<lparr>X = 0xC0000000, Y = 0x3FC00000, Z = 0xBF000000\<rparr>,
                  \<lparr>X = 0xC0000000, Y = 0x3FC00000, Z = 0x3F000000\<rparr>],
      Valid = True,
      Normal = \<lparr>X = 0x3F800000, Y = 0, Z = 0\<rparr>\<rparr>"

definition ascii_facet_two :: Facet where
  "ascii_facet_two =
     \<lparr>Vertices = [\<lparr>X = 0xC0000000, Y = 0x3F000000, Z = 0x3F000000\<rparr>,
                  \<lparr>X = 0xC0000000, Y = 0x3F000000, Z = 0xBF000000\<rparr>,
                  \<lparr>X = 0xC0000000, Y = 0x3FC00000, Z = 0x3F000000\<rparr>],
      Valid = True,
      Normal = \<lparr>X = 0x3F800000, Y = 0, Z = 0x80000000\<rparr>\<rparr>"

lemma ParseSTLBytes_simple_ascii:
  "ParseSTLBytes test_floats simple_ascii [] =
     Some (Inr [Some ascii_facet_one, Some ascii_facet_two])"
  by code_simp

theorem returned_facets_complete_witness:
  "ParseSTLBytes test_floats simple_ascii [] =
     Some (Inr [Some ascii_facet_one, Some ascii_facet_two])
   \<and> Valid ascii_facet_two \<and> length (Vertices ascii_facet_two) = 3
   \<and> ParseSTLBytes test_floats nonstandard_binary [] = Some (Inr [Some facet_one, Some facet_two])
   \<and> Valid facet_one \<and> length (Vertices facet_one) = 3"
proof -
  have b: "ParseSTLBytes test_floats nonstandard_binary [] =
      Some (Inr [Some facet_one, Some facet_two])"
    by (simp add: ParseSTLBytes_def length_nonstandard_binary nonstandard_binary_prefix
        parseASCII_nonstandard_binary parseBinary_nonstandard_binary)
  from returned_facets_complete [OF ParseSTLBytes_simple_ascii, of "Some ascii_facet_two"]
    returned_facets_complete [OF b, of "Some facet_one"]
  show ?thesis by (simp add: ParseSTLBytes_simple_ascii b)
qed


end
